theory Spec2Isabelle
  imports Complex_Main
begin

section \<open>Values of the host language\<close>

text \<open>
  The library is TypeScript. Objects are addresses (two objects are the same object iff
  their addresses are equal), thrown errors are values of a sum type, and the two nullish
  values of the language are distinct constructors, because \<^verbatim>\<open>== null\<close> in the source
  accepts both.
\<close>

type_synonym addr = nat

datatype number = Num real | NaN | PosInfinity | NegInfinity

datatype val =
    Undefined
  | Null
  | Boolean bool
  | Number number
  | String string
  | Object addr
  | Promise addr

datatype error = Error string

text \<open>\<^verbatim>\<open>a === b\<close> on numbers: \<^verbatim>\<open>NaN\<close> is not equal to anything, itself included.\<close>

fun strict_eq :: "number \<Rightarrow> number \<Rightarrow> bool" where
  "strict_eq NaN b = False"
| "strict_eq a NaN = False"
| "strict_eq a b = (a = b)"

text \<open>\<^verbatim>\<open>v == null\<close>: true for \<^verbatim>\<open>null\<close> and for \<^verbatim>\<open>undefined\<close>, false for every other value.\<close>

fun loose_eq_null :: "val \<Rightarrow> bool" where
  "loose_eq_null Undefined = True"
| "loose_eq_null Null = True"
| "loose_eq_null v = False"

text \<open>Sequencing of a call that may throw with the call made on its result.\<close>

definition and_then :: "error + 'a \<Rightarrow> ('a \<Rightarrow> error + 'b) \<Rightarrow> error + 'b" where
  "and_then r f = (case r of Inl e \<Rightarrow> Inl e | Inr x \<Rightarrow> f x)"

section \<open>PluginCollection (src/private/PluginCollection.ts)\<close>

text \<open>
  A \<^verbatim>\<open>PluginReference\<close> is an object used only as a map key, so it is its address.
  A \<^verbatim>\<open>PluginSpec\<close> is the pair of a reference and an implementation of type
  \<^verbatim>\<open>unknown\<close>, that is, any value.
\<close>

type_synonym PluginReference = addr

record PluginSpec =
  reference :: PluginReference
  implementation :: val

record PluginCollection =
  plugins :: "PluginReference \<rightharpoonup> val"

text \<open>
  The constructor: \<^verbatim>\<open>for (const plugin of plugins) this.plugins.set(plugin.reference,
  plugin.implementation)\<close>, starting from the empty map.
\<close>

fun set_each :: "PluginSpec list \<Rightarrow> (PluginReference \<rightharpoonup> val) \<Rightarrow> (PluginReference \<rightharpoonup> val)" where
  "set_each [] m = m"
| "set_each (plugin # rest) m = set_each rest (m(reference plugin \<mapsto> implementation plugin))"

definition new_PluginCollection :: "PluginSpec list \<Rightarrow> PluginCollection" where
  "new_PluginCollection specs = \<lparr>plugins = set_each specs Map.empty\<rparr>"

text \<open>\<^verbatim>\<open>Map.prototype.get\<close>: the stored value, or \<^verbatim>\<open>undefined\<close> for a key that is not there.\<close>

definition Map_get :: "('k \<rightharpoonup> val) \<Rightarrow> 'k \<Rightarrow> val" where
  "Map_get m k = (case m k of None \<Rightarrow> Undefined | Some v \<Rightarrow> v)"

text \<open>
  \<^verbatim>\<open>get(ref)\<close>: \<^verbatim>\<open>const plugin = this.plugins.get(ref); if (plugin == null) throw new
  Error('Plugin not set'); return plugin\<close>.
\<close>

definition get :: "PluginReference \<Rightarrow> PluginCollection \<Rightarrow> error + val" where
  "get ref this =
     (let plugin = Map_get (plugins this) ref
      in if loose_eq_null plugin then Inl (Error ''Plugin not set'') else Inr plugin)"

section \<open>ContextContainerFactoryImpl (src/private/ContextContainerFactoryImpl.ts)\<close>

text \<open>
  \<^verbatim>\<open>const TOKEN = Math.random()\<close> is drawn once when the module is loaded. It is a finite
  number; every function that reads it takes it as its first parameter.
\<close>

definition assertConstructedByContextContainer :: "real \<Rightarrow> number \<Rightarrow> error + unit" where
  "assertConstructedByContextContainer TOKEN token =
     (if \<not> strict_eq token (Num TOKEN)
      then Inl (Error ''Attempted to construct ContextModuleClass directly'')
      else Inr ())"

datatype ProofOfBeingCalledByContextContainer = Proof (token: number)

text \<open>The constructor stores the token in a private field and runs the assertion on it.\<close>

definition new_ProofOfBeingCalledByContextContainer ::
    "real \<Rightarrow> number \<Rightarrow> error + ProofOfBeingCalledByContextContainer" where
  "new_ProofOfBeingCalledByContextContainer TOKEN t =
     (case assertConstructedByContextContainer TOKEN t of
        Inl e \<Rightarrow> Inl e
      | Inr u \<Rightarrow> Inr (Proof t))"

section \<open>ContextualSingleton (src/public/ContextContainer.ts)\<close>

text \<open>
  A singleton class is identified by the class object itself. The constructor of
  \<^verbatim>\<open>ContextualSingleton\<close> takes a \<^verbatim>\<open>ProofOfBeingCalledByContextContainer\<close> and does
  nothing with it (its body is the expression statement \<^verbatim>\<open>proof;\<close>): all checking
  happened when the proof object was built.
\<close>

type_synonym SingletonClass = addr

datatype ContextualSingleton = Instance (classOf: SingletonClass)

definition new_ContextualSingleton ::
    "SingletonClass \<Rightarrow> ProofOfBeingCalledByContextContainer \<Rightarrow> ContextualSingleton" where
  "new_ContextualSingleton cls prf = Instance cls"

text \<open>
  Application code that wants an instance without going through the container has to
  write \<^verbatim>\<open>new S(new ProofOfBeingCalledByContextContainer(t))\<close> for some number
  \<^verbatim>\<open>t\<close> of its own: the parameter type of the constructor admits nothing else.
\<close>

definition construct_directly ::
    "real \<Rightarrow> SingletonClass \<Rightarrow> number \<Rightarrow> error + ContextualSingleton" where
  "construct_directly TOKEN cls t =
     and_then (new_ProofOfBeingCalledByContextContainer TOKEN t)
       (\<lambda>p. Inr (new_ContextualSingleton cls p))"

section \<open>ContextContainerImpl\<close>

text \<open>A \<^verbatim>\<open>Date\<close> is its time value, in milliseconds since the epoch.\<close>

type_synonym Date = int

text \<open>
  Modelled from the spec: the class \<^verbatim>\<open>ContextContainerImpl\<close>
  (src/private/ContextContainerImpl.ts), which the factory instantiates, is not among the
  sources. The spec says that a container owns one plugin registry, one singleton
  registry, one memoization cache and one immutable timestamp, and that it delegates
  \<^verbatim>\<open>getPlugin\<close>, \<^verbatim>\<open>getSingleton\<close>, \<^verbatim>\<open>memoize\<close> and the \<^verbatim>\<open>timestamp\<close> accessor to
  them.
\<close>

record ContextContainerImpl =
  proofOfBeingCalled :: ProofOfBeingCalledByContextContainer
  pluginCollection :: PluginCollection
  singletons :: "SingletonClass \<rightharpoonup> addr"
  memoized :: "val \<times> string \<rightharpoonup> val"
  timestamp :: Date

text \<open>
  Modelled from the spec: the constructor keeps the three arguments the factory passes and
  starts with an empty singleton registry and an empty memoization cache.
\<close>

definition new_ContextContainerImpl ::
    "ProofOfBeingCalledByContextContainer \<Rightarrow> PluginCollection \<Rightarrow> Date \<Rightarrow> ContextContainerImpl" where
  "new_ContextContainerImpl prf pc ts =
     \<lparr>proofOfBeingCalled = prf, pluginCollection = pc,
      singletons = Map.empty, memoized = Map.empty, timestamp = ts\<rparr>"

text \<open>Modelled from the spec: \<^verbatim>\<open>getPlugin\<close> delegates to the plugin registry.\<close>

definition getPlugin :: "PluginReference \<Rightarrow> ContextContainerImpl \<Rightarrow> error + val" where
  "getPlugin ref this = get ref (pluginCollection this)"

text \<open>
  Modelled from the spec: \<^verbatim>\<open>getSingleton\<close> looks the class up in the registry; if it
  is absent it constructs a new instance by invoking the class's initializer with the
  capability the container holds, stores it under the class and returns it; if it is
  present it returns the stored instance. The third argument is the heap of singleton
  objects; \<^verbatim>\<open>new\<close> allocates the next free address.
\<close>

definition getSingleton ::
    "SingletonClass \<Rightarrow> ContextContainerImpl \<Rightarrow> ContextualSingleton list
       \<Rightarrow> addr \<times> ContextContainerImpl \<times> ContextualSingleton list" where
  "getSingleton cls this heap =
     (case singletons this cls of
        Some inst \<Rightarrow> (inst, this, heap)
      | None \<Rightarrow>
          (length heap,
           this\<lparr>singletons := (singletons this)(cls \<mapsto> length heap)\<rparr>,
           heap @ [new_ContextualSingleton cls (proofOfBeingCalled this)]))"

text \<open>
  Modelled from the spec: \<^verbatim>\<open>memoize(scope, key, fn)\<close> returns the cached value for
  \<^verbatim>\<open>(scope, key)\<close> if one exists; otherwise it invokes \<^verbatim>\<open>fn()\<close> once, stores the
  returned value under \<^verbatim>\<open>(scope, key)\<close> and returns it. If \<^verbatim>\<open>fn\<close> throws, nothing is
  stored and the error propagates. The callback is a computation on the program state
  outside the cache (type \<open>'w\<close>): it may change that state, and it either throws or
  returns a value.
\<close>

definition memoize ::
    "val \<Rightarrow> string \<Rightarrow> ('w \<Rightarrow> (error + val) \<times> 'w) \<Rightarrow> ContextContainerImpl \<Rightarrow> 'w
       \<Rightarrow> (error + val) \<times> ContextContainerImpl \<times> 'w" where
  "memoize scope key fn this w =
     (case memoized this (scope, key) of
        Some v \<Rightarrow> (Inr v, this, w)
      | None \<Rightarrow>
          (case fn w of
             (Inl e, w') \<Rightarrow> (Inl e, this, w')
           | (Inr v, w') \<Rightarrow>
               (Inr v, this\<lparr>memoized := (memoized this)((scope, key) \<mapsto> v)\<rparr>, w')))"

section \<open>The factory\<close>

text \<open>
  \<^verbatim>\<open>create(plugins, timestamp?)\<close> returns \<^verbatim>\<open>new ContextContainerImpl(new
  ProofOfBeingCalledByContextContainer(TOKEN), new PluginCollection(plugins), timestamp ??
  new Date())\<close>. The wall clock read by \<^verbatim>\<open>new Date()\<close> is the parameter \<open>now\<close>; an
  omitted timestamp is \<open>None\<close>.
\<close>

definition create ::
    "real \<Rightarrow> Date \<Rightarrow> PluginSpec list \<Rightarrow> Date option \<Rightarrow> error + ContextContainerImpl" where
  "create TOKEN now specs ts =
     (case new_ProofOfBeingCalledByContextContainer TOKEN (Num TOKEN) of
        Inl e \<Rightarrow> Inl e
      | Inr prf \<Rightarrow>
          Inr (new_ContextContainerImpl prf (new_PluginCollection specs)
                 (case ts of None \<Rightarrow> now | Some t \<Rightarrow> t)))"

section \<open>Objects in a store\<close>

text \<open>
  Containers and singleton instances are objects: two calls of \<^verbatim>\<open>create\<close> with equal
  arguments give two different containers. The store holds the container objects and the
  singleton objects by address; a call on a container names it by its address and is
  undefined (\<open>None\<close>) at an address that holds no container, which a typed program never
  passes.
\<close>

record system =
  containers :: "ContextContainerImpl list"
  instances :: "ContextualSingleton list"

definition initial :: system where
  "initial = \<lparr>containers = [], instances = []\<rparr>"

definition call_create ::
    "real \<Rightarrow> Date \<Rightarrow> PluginSpec list \<Rightarrow> Date option \<Rightarrow> system \<Rightarrow> (error + addr) \<times> system" where
  "call_create TOKEN now specs ts \<sigma> =
     (case create TOKEN now specs ts of
        Inl e \<Rightarrow> (Inl e, \<sigma>)
      | Inr cc \<Rightarrow> (Inr (length (containers \<sigma>)), \<sigma>\<lparr>containers := containers \<sigma> @ [cc]\<rparr>))"

definition call_getPlugin :: "PluginReference \<Rightarrow> addr \<Rightarrow> system \<Rightarrow> (error + val) option" where
  "call_getPlugin ref c \<sigma> =
     (if c < length (containers \<sigma>) then Some (getPlugin ref (containers \<sigma> ! c)) else None)"

definition call_getSingleton :: "SingletonClass \<Rightarrow> addr \<Rightarrow> system \<Rightarrow> (addr \<times> system) option" where
  "call_getSingleton cls c \<sigma> =
     (if c < length (containers \<sigma>)
      then (case getSingleton cls (containers \<sigma> ! c) (instances \<sigma>) of
              (inst, cc', heap') \<Rightarrow>
                Some (inst, \<sigma>\<lparr>containers := (containers \<sigma>)[c := cc'], instances := heap'\<rparr>))
      else None)"

section \<open>Pending results\<close>

text \<open>
  A callback handed to \<^verbatim>\<open>memoize\<close> may return a promise. Promises are objects whose
  state is pending until it is settled once, with a value or with an error. The state
  outside the cache on which callbacks run is the table of promises.
\<close>

datatype promise = Pending | Fulfilled val | Rejected error

record world =
  promises :: "promise list"

text \<open>An asynchronous function: a call returns a new promise, still pending.\<close>

definition async_fn :: "world \<Rightarrow> (error + val) \<times> world" where
  "async_fn w = (Inr (Promise (length (promises w))), w\<lparr>promises := promises w @ [Pending]\<rparr>)"

text \<open>The callback \<^verbatim>\<open>() => arg\<close> of the tests, and one that throws.\<close>

definition returning :: "val \<Rightarrow> 'w \<Rightarrow> (error + val) \<times> 'w" where
  "returning arg w = (Inr arg, w)"

definition throwing :: "error \<Rightarrow> 'w \<Rightarrow> (error + val) \<times> 'w" where
  "throwing e w = (Inl e, w)"

text \<open>Settling changes a pending promise and leaves a settled one as it is.\<close>

definition settle :: "addr \<Rightarrow> promise \<Rightarrow> world \<Rightarrow> world" where
  "settle p outcome w =
     (if p < length (promises w) \<and> promises w ! p = Pending
      then w\<lparr>promises := (promises w)[p := outcome]\<rparr>
      else w)"

text \<open>
  What a caller that awaits a value sees: nothing yet while a promise is pending, its
  value or its error once it is settled; a value that is not a promise is seen as it is.
\<close>

definition await :: "world \<Rightarrow> val \<Rightarrow> (error + val) option" where
  "await w v =
     (case v of
        Promise p \<Rightarrow>
          (if p < length (promises w)
           then (case promises w ! p of
                   Pending \<Rightarrow> None
                 | Fulfilled x \<Rightarrow> Some (Inr x)
                 | Rejected e \<Rightarrow> Some (Inl e))
           else None)
      | Undefined \<Rightarrow> Some (Inr v)
      | Null \<Rightarrow> Some (Inr v)
      | Boolean b \<Rightarrow> Some (Inr v)
      | Number n \<Rightarrow> Some (Inr v)
      | String s \<Rightarrow> Some (Inr v)
      | Object a \<Rightarrow> Some (Inr v))"

definition call_memoize ::
    "val \<Rightarrow> string \<Rightarrow> (world \<Rightarrow> (error + val) \<times> world) \<Rightarrow> addr \<Rightarrow> system \<Rightarrow> world
       \<Rightarrow> ((error + val) \<times> system \<times> world) option" where
  "call_memoize scope key fn c \<sigma> w =
     (if c < length (containers \<sigma>)
      then (case memoize scope key fn (containers \<sigma> ! c) w of
              (r, cc', w') \<Rightarrow> Some (r, \<sigma>\<lparr>containers := (containers \<sigma>)[c := cc']\<rparr>, w'))
      else None)"

section \<open>The life of a job\<close>

text \<open>
  One step of a program is one call of the library: creating a container, or
  \<^verbatim>\<open>getSingleton\<close> or \<^verbatim>\<open>memoize\<close> on an existing one (\<^verbatim>\<open>getPlugin\<close> and the
  \<^verbatim>\<open>timestamp\<close> accessor change nothing). A state is reachable when calls lead to
  it from the empty store.
\<close>

inductive step :: "real \<Rightarrow> system \<Rightarrow> system \<Rightarrow> bool" for TOKEN :: real where
  step_create:
    "call_create TOKEN now specs ts \<sigma> = (r, \<sigma>') \<Longrightarrow> step TOKEN \<sigma> \<sigma>'"
| step_getSingleton:
    "call_getSingleton cls c \<sigma> = Some (inst, \<sigma>') \<Longrightarrow> step TOKEN \<sigma> \<sigma>'"
| step_memoize:
    "call_memoize scope key fn c \<sigma> w = Some (r, \<sigma>', w') \<Longrightarrow> step TOKEN \<sigma> \<sigma>'"

definition steps :: "real \<Rightarrow> system \<Rightarrow> system \<Rightarrow> bool" where
  "steps TOKEN = rtranclp (step TOKEN)"

definition reachable :: "real \<Rightarrow> system \<Rightarrow> bool" where
  "reachable TOKEN \<sigma> = steps TOKEN initial \<sigma>"

text \<open>
  The instances a container holds, and the invariant of the store: every held instance
  has been allocated, and no instance is held by two containers.
\<close>

definition held :: "system \<Rightarrow> addr \<Rightarrow> addr set" where
  "held \<sigma> c = ran (singletons (containers \<sigma> ! c))"

definition separated :: "system \<Rightarrow> bool" where
  "separated \<sigma> =
     ((\<forall>c < length (containers \<sigma>). \<forall>a \<in> held \<sigma> c. a < length (instances \<sigma>)) \<and>
      (\<forall>c1 < length (containers \<sigma>). \<forall>c2 < length (containers \<sigma>).
         c1 \<noteq> c2 \<longrightarrow> held \<sigma> c1 \<inter> held \<sigma> c2 = {}))"

section \<open>Properties of the plugin registry\<close>

lemma create_succeeds:
  "create TOKEN now specs ts =
     Inr (new_ContextContainerImpl (Proof (Num TOKEN)) (new_PluginCollection specs)
            (case ts of None \<Rightarrow> now | Some t \<Rightarrow> t))"
  by (simp add: create_def new_ProofOfBeingCalledByContextContainer_def
      assertConstructedByContextContainer_def)

lemma create_getPlugin:
  "and_then (create TOKEN now specs ts) (getPlugin r) = get r (new_PluginCollection specs)"
  by (simp add: create_succeeds and_then_def getPlugin_def new_ContextContainerImpl_def)

lemma set_each_absent:
  "r \<notin> reference ` set specs \<Longrightarrow> set_each specs m r = m r"
  by (induction specs arbitrary: m) auto

text \<open>
  The entry of a reference is the implementation of the last spec that names it.
\<close>

lemma set_each_last:
  "filter (\<lambda>p. reference p = r) specs \<noteq> [] \<Longrightarrow>
     set_each specs m r = Some (implementation (last (filter (\<lambda>p. reference p = r) specs)))"
proof (induction specs arbitrary: m)
  case Nil
  then show ?case by simp
next
  case (Cons p ps)
  show ?case
  proof (cases "filter (\<lambda>p. reference p = r) ps = []")
    case True
    then have "r \<notin> reference ` set ps"
      by (auto simp: filter_empty_conv)
    with True Cons.prems show ?thesis
      by (auto simp: set_each_absent split: if_splits)
  next
    case False
    from Cons.IH [OF False] False show ?thesis
      by simp
  qed
qed

lemma get_absent:
  "plugins pc r = None \<Longrightarrow> get r pc = Inl (Error ''Plugin not set'')"
  by (simp add: get_def Map_get_def)

lemma get_present:
  "plugins pc r = Some v \<Longrightarrow>
     get r pc = (if loose_eq_null v then Inl (Error ''Plugin not set'') else Inr v)"
  by (simp add: get_def Map_get_def)

lemma new_PluginCollection_last:
  "filter (\<lambda>p. reference p = r) specs \<noteq> [] \<Longrightarrow>
     plugins (new_PluginCollection specs) r =
       Some (implementation (last (filter (\<lambda>p. reference p = r) specs)))"
  by (simp add: new_PluginCollection_def set_each_last)

lemma new_PluginCollection_absent:
  "r \<notin> reference ` set specs \<Longrightarrow> plugins (new_PluginCollection specs) r = None"
  by (simp add: new_PluginCollection_def set_each_absent)

lemma strict_eq_Num: "strict_eq t (Num x) = (t = Num x)"
  by (cases t) auto

section \<open>What one call changes\<close>

lemma getSingleton_fields:
  "getSingleton cls cc heap = (inst, cc', heap') \<Longrightarrow>
     pluginCollection cc' = pluginCollection cc \<and> timestamp cc' = timestamp cc \<and>
     proofOfBeingCalled cc' = proofOfBeingCalled cc \<and> memoized cc' = memoized cc"
  by (auto simp: getSingleton_def split: option.splits)

lemma memoize_fields:
  "memoize scope key fn cc w = (r, cc', w') \<Longrightarrow>
     pluginCollection cc' = pluginCollection cc \<and> timestamp cc' = timestamp cc \<and>
     proofOfBeingCalled cc' = proofOfBeingCalled cc \<and> singletons cc' = singletons cc"
  by (auto simp: memoize_def split: option.splits prod.splits sum.splits)

lemma getSingleton_registry:
  "getSingleton cls cc heap = (inst, cc', heap') \<Longrightarrow>
     singletons cc' = (singletons cc)(cls \<mapsto> inst) \<and>
     (singletons cc cls = Some inst \<and> heap' = heap \<or>
      singletons cc cls = None \<and> inst = length heap \<and> length heap' = Suc (length heap))"
  by (auto simp: getSingleton_def split: option.splits)

lemma memoize_hit:
  "memoized cc (scope, key) = Some v \<Longrightarrow> memoize scope key fn cc w = (Inr v, cc, w)"
  by (simp add: memoize_def)

lemma memoize_stores:
  "memoize scope key fn cc w = (Inr v, cc', w') \<Longrightarrow> memoized cc' (scope, key) = Some v"
  by (auto simp: memoize_def split: option.splits prod.splits sum.splits)

lemma call_create_result:
  "call_create TOKEN now specs ts \<sigma> =
     (Inr (length (containers \<sigma>)),
      \<sigma>\<lparr>containers := containers \<sigma> @
           [new_ContextContainerImpl (Proof (Num TOKEN)) (new_PluginCollection specs)
              (case ts of None \<Rightarrow> now | Some t \<Rightarrow> t)]\<rparr>)"
  by (simp add: call_create_def create_succeeds)

lemma call_create_new:
  assumes "call_create TOKEN now specs ts \<sigma> = (r, \<sigma>')"
  shows "r = Inr (length (containers \<sigma>)) \<and>
         length (containers \<sigma>') = Suc (length (containers \<sigma>)) \<and>
         containers \<sigma>' ! length (containers \<sigma>) =
           new_ContextContainerImpl (Proof (Num TOKEN)) (new_PluginCollection specs)
             (case ts of None \<Rightarrow> now | Some t \<Rightarrow> t)"
  using assms by (auto simp: call_create_result)

lemma call_memoize_hit:
  assumes "c < length (containers \<sigma>)" and "memoized (containers \<sigma> ! c) (scope, key) = Some v"
  shows "call_memoize scope key fn c \<sigma> w = Some (Inr v, \<sigma>, w)"
  using assms by (simp add: call_memoize_def memoize_hit)

lemma call_memoize_stores:
  assumes "call_memoize scope key fn c \<sigma> w = Some (Inr v, \<sigma>', w')"
  shows "c < length (containers \<sigma>') \<and> memoized (containers \<sigma>' ! c) (scope, key) = Some v"
  using assms
  by (auto simp: call_memoize_def split: if_splits prod.splits dest: memoize_stores)

lemma call_getSingleton_stores:
  assumes "call_getSingleton cls c \<sigma> = Some (a, \<sigma>')"
  shows "c < length (containers \<sigma>') \<and> singletons (containers \<sigma>' ! c) cls = Some a"
  using assms
  by (auto simp: call_getSingleton_def split: if_splits prod.splits dest: getSingleton_registry)

section \<open>What a run of calls keeps\<close>

lemma steps_refl: "steps TOKEN \<sigma> \<sigma>"
  by (simp add: steps_def)

lemma steps_trans: "steps TOKEN \<sigma> \<sigma>' \<Longrightarrow> steps TOKEN \<sigma>' \<sigma>'' \<Longrightarrow> steps TOKEN \<sigma> \<sigma>''"
  by (simp add: steps_def)

lemma step_steps: "step TOKEN \<sigma> \<sigma>' \<Longrightarrow> steps TOKEN \<sigma> \<sigma>'"
  by (simp add: steps_def)

lemma step_length:
  "step TOKEN \<sigma> \<sigma>' \<Longrightarrow> length (containers \<sigma>) \<le> length (containers \<sigma>')"
  by (induction rule: step.induct)
     (auto simp: call_create_def call_getSingleton_def call_memoize_def
           split: sum.splits if_splits prod.splits)

lemma step_keeps:
  assumes "step TOKEN \<sigma> \<sigma>'" and "c < length (containers \<sigma>)"
  shows "pluginCollection (containers \<sigma>' ! c) = pluginCollection (containers \<sigma> ! c) \<and>
         timestamp (containers \<sigma>' ! c) = timestamp (containers \<sigma> ! c)"
  using assms
proof (induction rule: step.induct)
  case (step_create now specs ts \<sigma> r \<sigma>')
  then show ?case
    by (auto simp: call_create_def nth_append split: sum.splits)
next
  case (step_getSingleton cls d \<sigma> inst \<sigma>')
  then show ?case
    by (auto simp: call_getSingleton_def nth_list_update dest: getSingleton_fields
             split: if_splits prod.splits)
next
  case (step_memoize scope key fn d \<sigma> w r \<sigma>' w')
  then show ?case
    by (auto simp: call_memoize_def nth_list_update dest: memoize_fields
             split: if_splits prod.splits)
qed

lemma step_keeps_singleton:
  assumes "step TOKEN \<sigma> \<sigma>'" and "c < length (containers \<sigma>)"
    and "singletons (containers \<sigma> ! c) cls = Some a"
  shows "singletons (containers \<sigma>' ! c) cls = Some a"
  using assms
proof (induction rule: step.induct)
  case (step_create now specs ts \<sigma> r \<sigma>')
  then show ?case
    by (auto simp: call_create_def nth_append split: sum.splits)
next
  case (step_getSingleton cls' d \<sigma> inst \<sigma>')
  then show ?case
    by (auto simp: call_getSingleton_def nth_list_update dest!: getSingleton_registry
             split: if_splits prod.splits)
next
  case (step_memoize scope key fn d \<sigma> w r \<sigma>' w')
  then show ?case
    by (auto simp: call_memoize_def nth_list_update dest: memoize_fields
             split: if_splits prod.splits)
qed

lemma step_keeps_memo:
  assumes "step TOKEN \<sigma> \<sigma>'" and "c < length (containers \<sigma>)"
    and "memoized (containers \<sigma> ! c) k = Some v"
  shows "memoized (containers \<sigma>' ! c) k = Some v"
  using assms
proof (induction rule: step.induct)
  case (step_create now specs ts \<sigma> r \<sigma>')
  then show ?case
    by (auto simp: call_create_def nth_append split: sum.splits)
next
  case (step_getSingleton cls' d \<sigma> inst \<sigma>')
  then show ?case
    by (auto simp: call_getSingleton_def nth_list_update dest: getSingleton_fields
             split: if_splits prod.splits)
next
  case (step_memoize scope key fn d \<sigma> w r \<sigma>' w')
  then show ?case
    by (auto simp: call_memoize_def memoize_def nth_list_update
             split: if_splits prod.splits option.splits sum.splits)
qed

lemma steps_keeps:
  assumes "steps TOKEN \<sigma> \<sigma>'" and "c < length (containers \<sigma>)"
  shows "c < length (containers \<sigma>') \<and>
         pluginCollection (containers \<sigma>' ! c) = pluginCollection (containers \<sigma> ! c) \<and>
         timestamp (containers \<sigma>' ! c) = timestamp (containers \<sigma> ! c)"
  using assms unfolding steps_def
proof (induction rule: rtranclp_induct)
  case base
  then show ?case by simp
next
  case (step y z)
  then show ?case
    using step_length [of TOKEN y z] step_keeps [of TOKEN y z c] by auto
qed

lemma steps_keeps_singleton:
  assumes "steps TOKEN \<sigma> \<sigma>'" and "c < length (containers \<sigma>)"
    and "singletons (containers \<sigma> ! c) cls = Some a"
  shows "singletons (containers \<sigma>' ! c) cls = Some a"
  using assms unfolding steps_def
proof (induction rule: rtranclp_induct)
  case base
  then show ?case by simp
next
  case (step y z)
  then have "c < length (containers y)"
    using steps_keeps [of TOKEN \<sigma> y c] by (simp add: steps_def)
  with step show ?case
    using step_keeps_singleton [of TOKEN y z c cls a] by auto
qed

lemma steps_keeps_memo:
  assumes "steps TOKEN \<sigma> \<sigma>'" and "c < length (containers \<sigma>)"
    and "memoized (containers \<sigma> ! c) k = Some v"
  shows "c < length (containers \<sigma>') \<and> memoized (containers \<sigma>' ! c) k = Some v"
  using assms unfolding steps_def
proof (induction rule: rtranclp_induct)
  case base
  then show ?case by simp
next
  case (step y z)
  then have "c < length (containers y)" by simp
  with step show ?case
    using step_keeps_memo [of TOKEN y z c k v] step_length [of TOKEN y z] by auto
qed

lemma reachable_initial: "reachable TOKEN initial"
  by (simp add: reachable_def steps_def)

lemma reachable_steps: "reachable TOKEN \<sigma> \<Longrightarrow> steps TOKEN \<sigma> \<sigma>' \<Longrightarrow> reachable TOKEN \<sigma>'"
  unfolding reachable_def by (rule steps_trans)

lemma reachable_create:
  "reachable TOKEN \<sigma> \<Longrightarrow> reachable TOKEN (snd (call_create TOKEN now specs ts \<sigma>))"
  by (rule reachable_steps, assumption, rule step_steps, rule step_create [of TOKEN now specs ts \<sigma>])
     (rule prod.collapse [symmetric])

lemma reachable_getSingleton:
  "reachable TOKEN \<sigma> \<Longrightarrow> call_getSingleton cls c \<sigma> = Some (a, \<sigma>') \<Longrightarrow> reachable TOKEN \<sigma>'"
  by (rule reachable_steps, assumption, rule step_steps, erule step_getSingleton)

section \<open>No instance is held by two containers\<close>

lemma separated_initial: "separated initial"
  by (simp add: separated_def initial_def)

lemma held_create:
  assumes "call_create TOKEN now specs ts \<sigma> = (r, \<sigma>')"
  shows "instances \<sigma>' = instances \<sigma> \<and>
         length (containers \<sigma>') = Suc (length (containers \<sigma>)) \<and>
         r = Inr (length (containers \<sigma>)) \<and>
         held \<sigma>' (length (containers \<sigma>)) = {} \<and>
         (\<forall>c < length (containers \<sigma>). containers \<sigma>' ! c = containers \<sigma> ! c)"
  using assms
  by (auto simp: call_create_def create_succeeds held_def new_ContextContainerImpl_def nth_append)

lemma separated_create:
  assumes "separated \<sigma>" and "call_create TOKEN now specs ts \<sigma> = (r, \<sigma>')"
  shows "separated \<sigma>'"
proof -
  note h = held_create [OF assms(2)]
  have same: "held \<sigma>' c = held \<sigma> c" if "c < length (containers \<sigma>)" for c
    using h that by (simp add: held_def)
  have cases: "c < length (containers \<sigma>) \<or> c = length (containers \<sigma>)"
    if "c < length (containers \<sigma>')" for c
    using h that by auto
  show ?thesis
    unfolding separated_def
  proof (intro conjI allI impI ballI)
    fix c a assume "c < length (containers \<sigma>')" "a \<in> held \<sigma>' c"
    with cases [of c] same [of c] h assms(1) show "a < length (instances \<sigma>')"
      by (auto simp: separated_def)
  next
    fix c1 c2
    assume c: "c1 < length (containers \<sigma>')" "c2 < length (containers \<sigma>')" "c1 \<noteq> c2"
    have new: "held \<sigma>' (length (containers \<sigma>)) = {}"
      using h by simp
    have old: "held \<sigma> c1 \<inter> held \<sigma> c2 = {}"
      if "c1 < length (containers \<sigma>)" "c2 < length (containers \<sigma>)"
      using assms(1) that c(3) by (simp add: separated_def)
    from cases [OF c(1)] cases [OF c(2)] show "held \<sigma>' c1 \<inter> held \<sigma>' c2 = {}"
      using new old same [of c1] same [of c2] by auto
  qed
qed

lemma held_getSingleton:
  assumes "call_getSingleton cls d \<sigma> = Some (inst, \<sigma>')"
  shows "d < length (containers \<sigma>) \<and> length (containers \<sigma>') = length (containers \<sigma>) \<and>
         (\<forall>c < length (containers \<sigma>). c \<noteq> d \<longrightarrow> held \<sigma>' c = held \<sigma> c) \<and>
         (\<sigma>' = \<sigma> \<and> singletons (containers \<sigma> ! d) cls = Some inst \<or>
          singletons (containers \<sigma> ! d) cls = None \<and> inst = length (instances \<sigma>) \<and>
          length (instances \<sigma>') = Suc (length (instances \<sigma>)) \<and>
          held \<sigma>' d = insert inst (held \<sigma> d))"
proof -
  from assms have d: "d < length (containers \<sigma>)"
    by (simp add: call_getSingleton_def split: if_splits)
  show ?thesis
  proof (cases "singletons (containers \<sigma> ! d) cls")
    case None
    with assms d show ?thesis
      by (auto simp: call_getSingleton_def getSingleton_def held_def split: if_splits)
  next
    case (Some a)
    with assms d have "\<sigma>' = \<sigma>" and "inst = a"
      by (auto simp: call_getSingleton_def getSingleton_def list_update_same_conv)
    with Some d show ?thesis by simp
  qed
qed

lemma separated_getSingleton:
  assumes "separated \<sigma>" and "call_getSingleton cls d \<sigma> = Some (inst, \<sigma>')"
  shows "separated \<sigma>'"
proof -
  note h = held_getSingleton [OF assms(2)]
  from h consider (hit) "\<sigma>' = \<sigma>"
    | (miss) "inst = length (instances \<sigma>)"
        "length (instances \<sigma>') = Suc (length (instances \<sigma>))"
        "held \<sigma>' d = insert inst (held \<sigma> d)"
    by blast
  then show ?thesis
  proof cases
    case hit
    with assms(1) show ?thesis by simp
  next
    case miss
    have other: "held \<sigma>' c = held \<sigma> c" if "c < length (containers \<sigma>)" "c \<noteq> d" for c
      using h that by simp
    have bound: "a < length (instances \<sigma>)" if "c < length (containers \<sigma>)" "a \<in> held \<sigma> c" for c a
      using assms(1) that by (auto simp: separated_def)
    have disj: "held \<sigma> c1 \<inter> held \<sigma> c2 = {}"
      if "c1 < length (containers \<sigma>)" "c2 < length (containers \<sigma>)" "c1 \<noteq> c2" for c1 c2
      using assms(1) that by (auto simp: separated_def)
    have len: "length (containers \<sigma>') = length (containers \<sigma>)" and d: "d < length (containers \<sigma>)"
      using h by simp_all
    show ?thesis
      unfolding separated_def len
    proof (intro conjI allI impI ballI)
      fix c a assume c: "c < length (containers \<sigma>)" and a: "a \<in> held \<sigma>' c"
      show "a < length (instances \<sigma>')"
      proof (cases "c = d")
        case True
        with a miss have "a = inst \<or> a \<in> held \<sigma> d" by simp
        with miss bound [OF d, of a] show ?thesis by auto
      next
        case False
        with a other [OF c] have "a \<in> held \<sigma> c" by simp
        with miss bound [OF c, of a] show ?thesis by auto
      qed
    next
      fix c1 c2
      assume c1: "c1 < length (containers \<sigma>)" and c2: "c2 < length (containers \<sigma>)"
        and ne: "c1 \<noteq> c2"
      have fresh: "inst \<notin> held \<sigma> c" if "c < length (containers \<sigma>)" for c
        using bound [OF that] miss(1) by auto
      show "held \<sigma>' c1 \<inter> held \<sigma>' c2 = {}"
      proof (cases "c1 = d")
        case True
        with ne have "c2 \<noteq> d" by simp
        with True miss other [OF c2] disj [OF c1 c2 ne] fresh [OF c2] show ?thesis by auto
      next
        case False
        show ?thesis
        proof (cases "c2 = d")
          case True
          with False miss other [OF c1] disj [OF c1 c2 ne] fresh [OF c1] show ?thesis by auto
        next
          case c2d: False
          with False other [OF c1] other [OF c2] disj [OF c1 c2 ne] show ?thesis by auto
        qed
      qed
    qed
  qed
qed

lemma separated_memoize:
  assumes "separated \<sigma>" and "call_memoize scope key fn d \<sigma> w = Some (r, \<sigma>', w')"
  shows "separated \<sigma>'"
proof -
  obtain cc' where d: "d < length (containers \<sigma>)"
    and m: "memoize scope key fn (containers \<sigma> ! d) w = (r, cc', w')"
    and s: "\<sigma>' = \<sigma>\<lparr>containers := (containers \<sigma>)[d := cc']\<rparr>"
    using assms(2) by (auto simp: call_memoize_def split: if_splits prod.splits)
  have "held \<sigma>' c = held \<sigma> c" for c
    using memoize_fields [OF m] d s by (cases "c = d") (auto simp: held_def)
  with assms(1) s show ?thesis
    by (simp add: separated_def)
qed

lemma separated_step: "step TOKEN \<sigma> \<sigma>' \<Longrightarrow> separated \<sigma> \<Longrightarrow> separated \<sigma>'"
  by (induction rule: step.induct)
     (auto intro: separated_create separated_getSingleton separated_memoize)

lemma separated_steps: "steps TOKEN \<sigma> \<sigma>' \<Longrightarrow> separated \<sigma> \<Longrightarrow> separated \<sigma>'"
  unfolding steps_def by (induction rule: rtranclp_induct) (auto intro: separated_step)

lemma reachable_separated: "reachable TOKEN \<sigma> \<Longrightarrow> separated \<sigma>"
  unfolding reachable_def by (rule separated_steps [OF _ separated_initial])

section \<open>Memoization\<close>

text \<open>
  Claim C1 (single flight). Let a container hold no entry for \<open>(scope, key)\<close>, and let
  \<open>fn\<close> return a promise that is still pending when \<open>fn\<close> returns. Then
  \<^verbatim>\<open>memoize(scope, key, fn)\<close> runs \<open>fn\<close> once (the state outside the cache is the one
  \<open>fn\<close> leaves), returns that promise, and has stored it under \<open>(scope, key)\<close> in the same
  call, while the promise is pending. Every later call for the same pair on that
  container, after any calls of the library in between, with any callback and in any
  outside state, returns the same promise and changes neither the store nor the outside
  state: its callback is not run. Both callers hold the same promise, so at any later
  time they see the same outcome of it.
\<close>

theorem memoize_single_flight:
  assumes "c < length (containers \<sigma>)"
    and "memoized (containers \<sigma> ! c) (scope, key) = None"
    and "fn w = (Inr (Promise p), w1)"
    and "p < length (promises w1) \<and> promises w1 ! p = Pending"
  shows "\<exists>\<sigma>1. call_memoize scope key fn c \<sigma> w = Some (Inr (Promise p), \<sigma>1, w1) \<and>
           memoized (containers \<sigma>1 ! c) (scope, key) = Some (Promise p) \<and>
           (\<forall>\<sigma>2 fn' w2. steps TOKEN \<sigma>1 \<sigma>2 \<longrightarrow>
              call_memoize scope key fn' c \<sigma>2 w2 = Some (Inr (Promise p), \<sigma>2, w2)) \<and>
           (\<forall>\<sigma>2 fn' w2 r2 \<sigma>3 w3 w4. steps TOKEN \<sigma>1 \<sigma>2 \<longrightarrow>
              call_memoize scope key fn' c \<sigma>2 w2 = Some (Inr r2, \<sigma>3, w3) \<longrightarrow>
              await w4 r2 = await w4 (Promise p))"
proof -
  let ?cc = "(containers \<sigma> ! c)\<lparr>memoized := (memoized (containers \<sigma> ! c))((scope, key) \<mapsto> Promise p)\<rparr>"
  let ?\<sigma>1 = "\<sigma>\<lparr>containers := (containers \<sigma>)[c := ?cc]\<rparr>"
  from assms(1-3) have first: "call_memoize scope key fn c \<sigma> w = Some (Inr (Promise p), ?\<sigma>1, w1)"
    by (simp add: call_memoize_def memoize_def)
  note stored = call_memoize_stores [OF first]
  have later: "call_memoize scope key fn' c \<sigma>2 w2 = Some (Inr (Promise p), \<sigma>2, w2)"
    if "steps TOKEN ?\<sigma>1 \<sigma>2" for \<sigma>2 fn' w2
    using steps_keeps_memo [OF that, of c "(scope, key)" "Promise p"] stored
    by (simp add: call_memoize_hit)
  from first stored later show ?thesis
    by (intro exI [of _ ?\<sigma>1]) auto
qed

text \<open>
  An asynchronous callback on a new container: the first call allocates promise 0, the
  second call returns promise 0 and allocates nothing, and once the promise is rejected
  the rejection is what an awaiting caller sees.
\<close>

theorem memoize_single_flight_witness:
  "let \<sigma> = snd (call_create (1/2) 0 [] None initial);
       w = \<lparr>promises = []\<rparr>;
       w1 = \<lparr>promises = [Pending]\<rparr>;
       \<sigma>1 = fst (snd (the (call_memoize (Object 3) ''key'' async_fn 0 \<sigma> w)))
   in 0 < length (containers \<sigma>) \<and>
      memoized (containers \<sigma> ! 0) (Object 3, ''key'') = None \<and>
      async_fn w = (Inr (Promise 0), w1) \<and>
      0 < length (promises w1) \<and> promises w1 ! 0 = Pending \<and>
      await w1 (Promise 0) = None \<and>
      call_memoize (Object 3) ''key'' async_fn 0 \<sigma> w = Some (Inr (Promise 0), \<sigma>1, w1) \<and>
      steps (1/2) \<sigma>1 \<sigma>1 \<and>
      call_memoize (Object 3) ''key'' async_fn 0 \<sigma>1 w1 = Some (Inr (Promise 0), \<sigma>1, w1) \<and>
      await (settle 0 (Rejected (Error ''late'')) w1) (Promise 0) = Some (Inl (Error ''late''))"
proof -
  let ?\<sigma> = "snd (call_create (1/2) 0 [] None initial)"
  let ?w = "\<lparr>promises = []\<rparr>"
  let ?w1 = "\<lparr>promises = [Pending]\<rparr>"
  let ?\<sigma>1 = "fst (snd (the (call_memoize (Object 3) ''key'' async_fn 0 ?\<sigma> ?w)))"
  have len: "0 < length (containers ?\<sigma>)"
    and miss: "memoized (containers ?\<sigma> ! 0) (Object 3, ''key'') = None"
    by (simp_all add: call_create_result initial_def new_ContextContainerImpl_def)
  have fn: "async_fn ?w = (Inr (Promise 0), ?w1)"
    by (simp add: async_fn_def)
  have pending: "0 < length (promises ?w1) \<and> promises ?w1 ! 0 = Pending"
    by simp
  have waiting: "await ?w1 (Promise 0) = None"
    by (simp add: await_def)
  have settled: "await (settle 0 (Rejected (Error ''late'')) ?w1) (Promise 0)
                   = Some (Inl (Error ''late''))"
    by (simp add: await_def settle_def)
  from memoize_single_flight [of 0 ?\<sigma> "Object 3" "''key''" async_fn ?w 0 ?w1 "1/2",
      OF len miss fn pending]
  obtain \<sigma>1 where first: "call_memoize (Object 3) ''key'' async_fn 0 ?\<sigma> ?w
                             = Some (Inr (Promise 0), \<sigma>1, ?w1)"
    and later: "\<And>\<sigma>2 fn' w2. steps (1/2) \<sigma>1 \<sigma>2 \<Longrightarrow>
                  call_memoize (Object 3) ''key'' fn' 0 \<sigma>2 w2 = Some (Inr (Promise 0), \<sigma>2, w2)"
    by blast
  from first have eq: "?\<sigma>1 = \<sigma>1" by simp
  from later [OF steps_refl, of async_fn ?w1] first eq len miss fn pending waiting settled
  show ?thesis
    by (simp add: Let_def steps_refl)
qed

text \<open>
  Claim C2 (the first call wins). Once \<^verbatim>\<open>memoize(scope, key, f1)\<close> has returned a value
  on a container, every later call \<^verbatim>\<open>memoize(scope, key, f2)\<close> on it, after any calls
  of the library in between, returns that value and leaves the store and the outside
  state unchanged, for every \<open>f2\<close>: \<open>f2\<close> is not run. When the first call found no entry,
  the value is the one \<open>f1\<close> returned.
\<close>

theorem memoize_first_call_wins:
  assumes "call_memoize scope key f1 c \<sigma> w = Some (Inr v, \<sigma>1, w1)"
    and "steps TOKEN \<sigma>1 \<sigma>2"
  shows "call_memoize scope key f2 c \<sigma>2 w2 = Some (Inr v, \<sigma>2, w2) \<and>
         (memoized (containers \<sigma> ! c) (scope, key) = None \<longrightarrow> f1 w = (Inr v, w1))"
proof -
  from call_memoize_stores [OF assms(1)] steps_keeps_memo [OF assms(2)]
  have "c < length (containers \<sigma>2) \<and> memoized (containers \<sigma>2 ! c) (scope, key) = Some v"
    by blast
  then have "call_memoize scope key f2 c \<sigma>2 w2 = Some (Inr v, \<sigma>2, w2)"
    by (simp add: call_memoize_hit)
  moreover from assms(1)
  have "memoized (containers \<sigma> ! c) (scope, key) = None \<longrightarrow> f1 w = (Inr v, w1)"
    by (auto simp: call_memoize_def memoize_def
             split: if_splits prod.splits sum.splits option.splits)
  ultimately show ?thesis by simp
qed

text \<open>
  The test "Returns the same value for the same key": \<^verbatim>\<open>() => 1\<close> and then
  \<^verbatim>\<open>() => 2\<close> under the same scope and key both give 1.
\<close>

theorem memoize_first_call_wins_witness:
  "let \<sigma> = snd (call_create (1/2) 0 [] None initial);
       w = \<lparr>promises = []\<rparr>;
       \<sigma>1 = fst (snd (the (call_memoize (Object 3) ''key'' (returning (Number (Num 1))) 0 \<sigma> w)))
   in call_memoize (Object 3) ''key'' (returning (Number (Num 1))) 0 \<sigma> w
        = Some (Inr (Number (Num 1)), \<sigma>1, w) \<and>
      steps (1/2) \<sigma>1 \<sigma>1 \<and>
      memoized (containers \<sigma> ! 0) (Object 3, ''key'') = None \<and>
      call_memoize (Object 3) ''key'' (returning (Number (Num 2))) 0 \<sigma>1 w
        = Some (Inr (Number (Num 1)), \<sigma>1, w) \<and>
      returning (Number (Num 1)) w = (Inr (Number (Num 1)), w)"
proof -
  let ?\<sigma> = "snd (call_create (1/2) 0 [] None initial)"
  let ?w = "\<lparr>promises = []\<rparr>"
  let ?\<sigma>1 = "fst (snd (the (call_memoize (Object 3) ''key'' (returning (Number (Num 1))) 0 ?\<sigma> ?w)))"
  have first: "call_memoize (Object 3) ''key'' (returning (Number (Num 1))) 0 ?\<sigma> ?w
                 = Some (Inr (Number (Num 1)), ?\<sigma>1, ?w)"
    by (simp add: call_create_result initial_def call_memoize_def memoize_def returning_def
        new_ContextContainerImpl_def)
  have miss: "memoized (containers ?\<sigma> ! 0) (Object 3, ''key'') = None"
    by (simp add: call_create_result initial_def new_ContextContainerImpl_def)
  from memoize_first_call_wins [of "Object 3" "''key''" "returning (Number (Num 1))" 0 ?\<sigma> ?w
      "Number (Num 1)" ?\<sigma>1 ?w "1/2" ?\<sigma>1 "returning (Number (Num 2))" ?w, OF first steps_refl]
    miss first
  show ?thesis
    by (simp add: Let_def steps_refl returning_def)
qed

text \<open>
  Claim C6 (a callback that throws). If the container holds no entry for
  \<open>(scope, key)\<close> and \<open>fn\<close> throws, then \<^verbatim>\<open>memoize(scope, key, fn)\<close> fails with the
  error \<open>fn\<close> threw, unwrapped, and the container is unchanged: no entry is stored. A
  later call for the same pair therefore runs its own callback: its result and its effect
  on the outside state are those of the callback.
\<close>

theorem memoize_sync_failure:
  fixes fn :: "'w \<Rightarrow> (error + val) \<times> 'w"
  assumes "memoized cc (scope, key) = None" and "fn w = (Inl e, w1)"
  shows "memoize scope key fn cc w = (Inl e, cc, w1) \<and>
         (\<forall>(g :: 'w \<Rightarrow> (error + val) \<times> 'w) w2.
                  fst (memoize scope key g cc w2) = fst (g w2) \<and>
                  snd (snd (memoize scope key g cc w2)) = snd (g w2))"
  using assms by (auto simp: memoize_def split: prod.splits sum.splits)

text \<open>
  A callback that throws, followed by a retry with an asynchronous callback, which runs.
\<close>

theorem memoize_sync_failure_witness:
  "let cc = new_ContextContainerImpl (Proof (Num (1/2))) (new_PluginCollection []) 0;
       w = \<lparr>promises = []\<rparr>
   in memoized cc (Object 3, ''key'') = None \<and>
      throwing (Error ''boom'') w = (Inl (Error ''boom''), w) \<and>
      memoize (Object 3) ''key'' (throwing (Error ''boom'')) cc w = (Inl (Error ''boom''), cc, w) \<and>
      fst (memoize (Object 3) ''key'' async_fn cc w) = Inr (Promise 0) \<and>
      snd (snd (memoize (Object 3) ''key'' async_fn cc w)) = \<lparr>promises = [Pending]\<rparr>"
proof -
  let ?cc = "new_ContextContainerImpl (Proof (Num (1/2))) (new_PluginCollection []) 0"
  let ?w = "\<lparr>promises = []\<rparr>"
  have miss: "memoized ?cc (Object 3, ''key'') = None"
    by (simp add: new_ContextContainerImpl_def)
  have fn: "throwing (Error ''boom'') ?w = (Inl (Error ''boom''), ?w)"
    by (simp add: throwing_def)
  from memoize_sync_failure [of ?cc "Object 3" "''key''" "throwing (Error ''boom'')" ?w
      "Error ''boom''" ?w, OF miss fn]
  have fails: "memoize (Object 3) ''key'' (throwing (Error ''boom'')) ?cc ?w
                 = (Inl (Error ''boom''), ?cc, ?w)"
    and retry: "fst (memoize (Object 3) ''key'' async_fn ?cc ?w) = fst (async_fn ?w)"
      "snd (snd (memoize (Object 3) ''key'' async_fn ?cc ?w)) = snd (async_fn ?w)"
    by simp_all
  from fails retry miss fn show ?thesis
    by (simp add: Let_def async_fn_def)
qed

section \<open>Construction of singletons\<close>

text \<open>
  Claim C3 (construction is gated). For every singleton class, constructing an instance
  directly with a number that is not the process secret fails with the error
  \<^verbatim>\<open>Attempted to construct ContextModuleClass directly\<close>: the constructor needs a proof
  object, the proof object needs the number, and the assertion on it throws when it
  differs from \<^verbatim>\<open>TOKEN\<close>.
\<close>

theorem direct_construction_fails:
  assumes "t \<noteq> Num TOKEN"
  shows "assertConstructedByContextContainer TOKEN t
           = Inl (Error ''Attempted to construct ContextModuleClass directly'') \<and>
         new_ProofOfBeingCalledByContextContainer TOKEN t
           = Inl (Error ''Attempted to construct ContextModuleClass directly'') \<and>
         construct_directly TOKEN cls t
           = Inl (Error ''Attempted to construct ContextModuleClass directly'')"
  using assms
  by (simp add: construct_directly_def and_then_def new_ProofOfBeingCalledByContextContainer_def
      assertConstructedByContextContainer_def strict_eq_Num)

text \<open>
  The test "Fails if an incorrect token is passed" uses the token 4.
\<close>

theorem direct_construction_fails_witness:
  "Num 4 \<noteq> Num (1/2) \<and>
   assertConstructedByContextContainer (1/2) (Num 4)
     = Inl (Error ''Attempted to construct ContextModuleClass directly'') \<and>
   construct_directly (1/2) 0 (Num 4)
     = Inl (Error ''Attempted to construct ContextModuleClass directly'')"
  using direct_construction_fails [of "Num 4" "1/2" 0]
  by simp

text \<open>
  Claim C8 (one instance per container and class). In every reachable store, take a call
  \<^verbatim>\<open>c1.getSingleton(S)\<close> and a later call \<^verbatim>\<open>c2.getSingleton(S)\<close>, with any calls of
  the library in between. If the two containers are the same, both calls return the same
  instance and the second call changes nothing. If they are different containers, the two
  instances are different objects.
\<close>

theorem getSingleton_identity:
  assumes "reachable TOKEN \<sigma>"
    and "call_getSingleton cls c1 \<sigma> = Some (a1, \<sigma>1)"
    and "steps TOKEN \<sigma>1 \<sigma>2"
    and "call_getSingleton cls c2 \<sigma>2 = Some (a2, \<sigma>3)"
  shows "(c1 = c2 \<longrightarrow> a1 = a2 \<and> \<sigma>3 = \<sigma>2) \<and> (c1 \<noteq> c2 \<longrightarrow> a1 \<noteq> a2)"
proof -
  note first = call_getSingleton_stores [OF assms(2)]
  from steps_keeps_singleton [OF assms(3)] steps_keeps [OF assms(3)] first
  have mid: "c1 < length (containers \<sigma>2)" "singletons (containers \<sigma>2 ! c1) cls = Some a1"
    by blast+
  note second = held_getSingleton [OF assms(4)]
  have same: "a1 = a2 \<and> \<sigma>3 = \<sigma>2" if "c1 = c2"
    using that mid second by auto
  have "reachable TOKEN \<sigma>3"
    using assms by (blast intro: reachable_getSingleton reachable_steps)
  then have sep: "separated \<sigma>3"
    by (rule reachable_separated)
  have last: "c1 < length (containers \<sigma>3)" "singletons (containers \<sigma>3 ! c1) cls = Some a1"
    using step_keeps_singleton [OF step_getSingleton [OF assms(4)] mid] second mid(1) by simp_all
  have "a1 \<in> held \<sigma>3 c1"
    using last by (auto simp: held_def ran_def)
  moreover have "a2 \<in> held \<sigma>3 c2" and "c2 < length (containers \<sigma>3)"
    using call_getSingleton_stores [OF assms(4)] by (auto simp: held_def ran_def)
  ultimately have "a1 \<noteq> a2" if "c1 \<noteq> c2"
    using sep that last(1) unfolding separated_def by blast
  with same show ?thesis by blast
qed

text \<open>
  The test "Attaches different instances to different context containers": two
  containers, the class asked for on both, and asked for again on the first.
\<close>

theorem getSingleton_identity_witness:
  "let \<sigma> = snd (call_create (1/2) 0 [] None (snd (call_create (1/2) 0 [] None initial)));
       \<sigma>1 = snd (the (call_getSingleton 7 0 \<sigma>));
       \<sigma>2 = snd (the (call_getSingleton 7 1 \<sigma>1))
   in reachable (1/2) \<sigma> \<and>
      call_getSingleton 7 0 \<sigma> = Some (0, \<sigma>1) \<and>
      steps (1/2) \<sigma>1 \<sigma>1 \<and>
      call_getSingleton 7 1 \<sigma>1 = Some (1, \<sigma>2) \<and>
      call_getSingleton 7 0 \<sigma>1 = Some (0, \<sigma>1) \<and>
      (0::nat) \<noteq> 1"
proof -
  let ?\<sigma> = "snd (call_create (1/2) 0 [] None (snd (call_create (1/2) 0 [] None initial)))"
  let ?\<sigma>1 = "snd (the (call_getSingleton 7 0 ?\<sigma>))"
  let ?\<sigma>2 = "snd (the (call_getSingleton 7 1 ?\<sigma>1))"
  have r: "reachable (1/2) ?\<sigma>"
    by (intro reachable_create reachable_initial)
  have a: "call_getSingleton 7 0 ?\<sigma> = Some (0, ?\<sigma>1)"
    by (simp add: call_create_result initial_def call_getSingleton_def getSingleton_def
        new_ContextContainerImpl_def)
  have b: "call_getSingleton 7 1 ?\<sigma>1 = Some (1, ?\<sigma>2)"
    by (simp add: call_create_result initial_def call_getSingleton_def getSingleton_def
        new_ContextContainerImpl_def)
  have c: "call_getSingleton 7 0 ?\<sigma>1 = Some (0, ?\<sigma>1)"
    by (simp add: call_create_result initial_def call_getSingleton_def getSingleton_def
        new_ContextContainerImpl_def)
  from getSingleton_identity [OF r a steps_refl b] getSingleton_identity [OF r a steps_refl c]
    r a b c
  show ?thesis
    by (simp add: Let_def steps_refl)
qed

section \<open>Plugins\<close>

text \<open>
  Claim C4 (unregistered plugin). If no spec of the list given to the factory names the
  reference \<open>r\<close>, then \<^verbatim>\<open>get(r)\<close> on the registry throws \<^verbatim>\<open>Plugin not set\<close>, and
  \<^verbatim>\<open>getPlugin(r)\<close> on the container fails with that same error, as thrown.
\<close>

theorem getPlugin_not_registered:
  assumes "r \<notin> reference ` set specs"
  shows "get r (new_PluginCollection specs) = Inl (Error ''Plugin not set'') \<and>
         and_then (create TOKEN now specs ts) (getPlugin r) = Inl (Error ''Plugin not set'')"
  using assms by (simp add: create_getPlugin get_absent new_PluginCollection_absent)

text \<open>
  A container with one plugin, asked for another reference.
\<close>

theorem getPlugin_not_registered_witness:
  "(0::nat) \<notin> reference ` set [\<lparr>reference = 1, implementation = Object 7\<rparr>] \<and>
   get 0 (new_PluginCollection [\<lparr>reference = 1, implementation = Object 7\<rparr>])
     = Inl (Error ''Plugin not set'') \<and>
   and_then (create (1/2) 0 [\<lparr>reference = 1, implementation = Object 7\<rparr>] None) (getPlugin 0)
     = Inl (Error ''Plugin not set'')"
  using getPlugin_not_registered
    [of 0 "[\<lparr>reference = 1, implementation = Object 7\<rparr>]" "1/2" 0 None]
  by simp

text \<open>
  Claim C5, amended (registered plugin). For every reference \<open>r\<close> and every
  implementation that is neither \<^verbatim>\<open>null\<close> nor \<^verbatim>\<open>undefined\<close>, the container created
  from the single spec returns that implementation from \<^verbatim>\<open>getPlugin(r)\<close>. Two
  containers created with two such implementations for the same reference are different
  containers, and each returns its own implementation, at any later time.
\<close>

theorem getPlugin_registered:
  assumes "\<not> loose_eq_null iA" and "\<not> loose_eq_null iB"
    and "call_create TOKEN nowA [\<lparr>reference = r, implementation = iA\<rparr>] tsA \<sigma> = (ra, \<sigma>A)"
    and "call_create TOKEN nowB [\<lparr>reference = r, implementation = iB\<rparr>] tsB \<sigma>A = (rb, \<sigma>B)"
    and "steps TOKEN \<sigma>B \<sigma>'"
  shows "get r (new_PluginCollection [\<lparr>reference = r, implementation = iA\<rparr>]) = Inr iA \<and>
         and_then (create TOKEN nowA [\<lparr>reference = r, implementation = iA\<rparr>] tsA) (getPlugin r)
           = Inr iA \<and>
         (\<exists>a b. ra = Inr a \<and> rb = Inr b \<and> a \<noteq> b \<and>
            call_getPlugin r a \<sigma>' = Some (Inr iA) \<and> call_getPlugin r b \<sigma>' = Some (Inr iB))"
proof -
  let ?a = "length (containers \<sigma>)"
  have one: "get r (new_PluginCollection [\<lparr>reference = r, implementation = i\<rparr>]) = Inr i"
    if "\<not> loose_eq_null i" for i
    using that by (simp add: get_def Map_get_def new_PluginCollection_def)
  from call_create_new [OF assms(3)]
  have ra: "ra = Inr ?a" and A: "length (containers \<sigma>A) = Suc ?a"
    and pa: "pluginCollection (containers \<sigma>A ! ?a)
               = new_PluginCollection [\<lparr>reference = r, implementation = iA\<rparr>]"
    by (simp_all add: new_ContextContainerImpl_def)
  from call_create_new [OF assms(4)] A
  have rb: "rb = Inr (Suc ?a)" and B: "length (containers \<sigma>B) = Suc (Suc ?a)"
    and pb: "pluginCollection (containers \<sigma>B ! Suc ?a)
               = new_PluginCollection [\<lparr>reference = r, implementation = iB\<rparr>]"
    by (simp_all add: new_ContextContainerImpl_def)
  have "step TOKEN \<sigma>A \<sigma>B"
    using assms(4) by (rule step_create)
  from step_keeps [OF this, of ?a] A pa
  have pa': "pluginCollection (containers \<sigma>B ! ?a)
               = new_PluginCollection [\<lparr>reference = r, implementation = iA\<rparr>]"
    by simp
  from steps_keeps [OF assms(5), of ?a] B pa'
  have a: "call_getPlugin r ?a \<sigma>' = Some (Inr iA)"
    by (simp add: call_getPlugin_def getPlugin_def one [OF assms(1)])
  from steps_keeps [OF assms(5), of "Suc ?a"] B pb
  have b: "call_getPlugin r (Suc ?a) \<sigma>' = Some (Inr iB)"
    by (simp add: call_getPlugin_def getPlugin_def one [OF assms(2)])
  from ra rb a b one [OF assms(1)] show ?thesis
    by (simp add: create_getPlugin)
qed

text \<open>
  The test "Can store different plugins for different context containers".
\<close>

theorem getPlugin_registered_witness:
  "\<not> loose_eq_null (Object 1) \<and> \<not> loose_eq_null (Object 2) \<and>
   and_then (create (1/2) 0 [\<lparr>reference = 0, implementation = Object 1\<rparr>] None) (getPlugin 0)
     = Inr (Object 1) \<and>
   call_getPlugin 0 0
     (snd (call_create (1/2) 0 [\<lparr>reference = 0, implementation = Object 2\<rparr>] None
        (snd (call_create (1/2) 0 [\<lparr>reference = 0, implementation = Object 1\<rparr>] None initial))))
     = Some (Inr (Object 1)) \<and>
   call_getPlugin 0 1
     (snd (call_create (1/2) 0 [\<lparr>reference = 0, implementation = Object 2\<rparr>] None
        (snd (call_create (1/2) 0 [\<lparr>reference = 0, implementation = Object 1\<rparr>] None initial))))
     = Some (Inr (Object 2))"
proof -
  let ?A = "call_create (1/2) 0 [\<lparr>reference = 0, implementation = Object 1\<rparr>] None initial"
  let ?B = "call_create (1/2) 0 [\<lparr>reference = 0, implementation = Object 2\<rparr>] None (snd ?A)"
  have a: "?A = (Inr 0, snd ?A)"
    by (simp add: call_create_result initial_def)
  have b: "?B = (Inr 1, snd ?B)"
    by (simp add: call_create_result initial_def)
  have 1: "\<not> loose_eq_null (Object 1)" and 2: "\<not> loose_eq_null (Object 2)"
    by simp_all
  from getPlugin_registered [OF 1 2 a b steps_refl] show ?thesis
    by auto
qed

text \<open>
  Without the restriction the statement fails: a container created with \<^verbatim>\<open>null\<close> as
  the implementation of a reference throws instead of returning \<^verbatim>\<open>null\<close>.
\<close>

theorem getPlugin_null_counterexample:
  "get 0 (new_PluginCollection [\<lparr>reference = 0, implementation = Null\<rparr>])
     = Inl (Error ''Plugin not set'') \<and>
   and_then (create (1/2) 0 [\<lparr>reference = 0, implementation = Null\<rparr>] None) (getPlugin 0)
     \<noteq> Inr Null"
  by (simp add: create_getPlugin get_def Map_get_def new_PluginCollection_def)

text \<open>
  Claim C7, amended (the last spec wins). When the list given to the factory has specs
  for the reference \<open>r\<close>, the registry holds for \<open>r\<close> the implementation \<open>i\<close> of the last
  of them, whatever the earlier ones are, and \<^verbatim>\<open>getPlugin(r)\<close> returns \<open>i\<close> when \<open>i\<close> is
  neither \<^verbatim>\<open>null\<close> nor \<^verbatim>\<open>undefined\<close>; when it is, the call throws
  \<^verbatim>\<open>Plugin not set\<close> and does not fall back on an earlier spec.
\<close>

theorem last_spec_wins:
  assumes "filter (\<lambda>p. reference p = r) specs \<noteq> []"
    and "i = implementation (last (filter (\<lambda>p. reference p = r) specs))"
  shows "plugins (new_PluginCollection specs) r = Some i \<and>
         get r (new_PluginCollection specs)
           = (if loose_eq_null i then Inl (Error ''Plugin not set'') else Inr i) \<and>
         and_then (create TOKEN now specs ts) (getPlugin r)
           = (if loose_eq_null i then Inl (Error ''Plugin not set'') else Inr i)"
  using assms by (simp add: create_getPlugin new_PluginCollection_last get_present)

text \<open>
  Three specs, the first and the last for the same reference.
\<close>

theorem last_spec_wins_witness:
  "filter (\<lambda>p. reference p = 0) [\<lparr>reference = 0, implementation = Object 1\<rparr>,
      \<lparr>reference = 3, implementation = Object 4\<rparr>, \<lparr>reference = 0, implementation = Object 2\<rparr>] \<noteq> [] \<and>
   plugins (new_PluginCollection [\<lparr>reference = 0, implementation = Object 1\<rparr>,
      \<lparr>reference = 3, implementation = Object 4\<rparr>, \<lparr>reference = 0, implementation = Object 2\<rparr>]) 0
     = Some (Object 2) \<and>
   and_then (create (1/2) 0 [\<lparr>reference = 0, implementation = Object 1\<rparr>,
      \<lparr>reference = 3, implementation = Object 4\<rparr>, \<lparr>reference = 0, implementation = Object 2\<rparr>] None)
     (getPlugin 0) = Inr (Object 2)"
  using last_spec_wins [of 0 "[\<lparr>reference = 0, implementation = Object 1\<rparr>,
      \<lparr>reference = 3, implementation = Object 4\<rparr>, \<lparr>reference = 0, implementation = Object 2\<rparr>]"
      "Object 2" "1/2" 0 None]
  by simp

text \<open>
  Without the restriction the statement fails: when the last spec for a reference has the
  implementation \<^verbatim>\<open>undefined\<close>, \<^verbatim>\<open>getPlugin\<close> throws instead of returning it.
\<close>

theorem last_spec_null_counterexample:
  "get 0 (new_PluginCollection [\<lparr>reference = 0, implementation = Object 1\<rparr>,
                                \<lparr>reference = 0, implementation = Undefined\<rparr>])
     = Inl (Error ''Plugin not set'') \<and>
   and_then (create (1/2) 0 [\<lparr>reference = 0, implementation = Object 1\<rparr>,
                             \<lparr>reference = 0, implementation = Undefined\<rparr>] None) (getPlugin 0)
     \<noteq> Inr (implementation (last [\<lparr>reference = 0, implementation = Object 1\<rparr>,
                                   \<lparr>reference = 0, implementation = Undefined\<rparr>]))"
  by (simp add: create_getPlugin get_def Map_get_def new_PluginCollection_def)

text \<open>
  Claim C10 (a registered null). When the implementation a spec list registers for \<open>r\<close>
  (that of its last spec for \<open>r\<close>) is \<^verbatim>\<open>null\<close> or \<^verbatim>\<open>undefined\<close>, \<^verbatim>\<open>getPlugin(r)\<close>
  throws \<^verbatim>\<open>Plugin not set\<close>, and the lookup gives exactly what it gives for the same
  list without its specs for \<open>r\<close>: it cannot tell the two apart.
\<close>

theorem getPlugin_nullish_registered:
  assumes "filter (\<lambda>p. reference p = r) specs \<noteq> []"
    and "loose_eq_null (implementation (last (filter (\<lambda>p. reference p = r) specs)))"
  shows "and_then (create TOKEN now specs ts) (getPlugin r) = Inl (Error ''Plugin not set'') \<and>
         get r (new_PluginCollection specs)
           = get r (new_PluginCollection (filter (\<lambda>p. reference p \<noteq> r) specs))"
proof -
  have "r \<notin> reference ` set (filter (\<lambda>p. reference p \<noteq> r) specs)"
    by auto
  then have "get r (new_PluginCollection (filter (\<lambda>p. reference p \<noteq> r) specs))
               = Inl (Error ''Plugin not set'')"
    by (simp add: get_absent new_PluginCollection_absent)
  with assms show ?thesis
    by (simp add: create_getPlugin new_PluginCollection_last get_present)
qed

text \<open>
  A reference registered twice, the second time with \<^verbatim>\<open>null\<close>.
\<close>

theorem getPlugin_nullish_registered_witness:
  "filter (\<lambda>p. reference p = 0) [\<lparr>reference = 0, implementation = Object 1\<rparr>,
      \<lparr>reference = 0, implementation = Null\<rparr>] \<noteq> [] \<and>
   loose_eq_null (implementation (last (filter (\<lambda>p. reference p = 0)
      [\<lparr>reference = 0, implementation = Object 1\<rparr>, \<lparr>reference = 0, implementation = Null\<rparr>]))) \<and>
   and_then (create (1/2) 0 [\<lparr>reference = 0, implementation = Object 1\<rparr>,
      \<lparr>reference = 0, implementation = Null\<rparr>] None) (getPlugin 0) = Inl (Error ''Plugin not set'')"
  using getPlugin_nullish_registered [of 0 "[\<lparr>reference = 0, implementation = Object 1\<rparr>,
      \<lparr>reference = 0, implementation = Null\<rparr>]" "1/2" 0 None]
  by simp

section \<open>The timestamp\<close>

text \<open>
  Claim C9 (the timestamp). A container created with a timestamp has that timestamp, and
  one created without has the time of the wall clock at creation. After any calls of the
  library that follow, the container still has the same timestamp.
\<close>

theorem timestamp_fixed:
  assumes "call_create TOKEN now specs ts \<sigma> = (r, \<sigma>1)" and "steps TOKEN \<sigma>1 \<sigma>2"
  shows "map_sum id timestamp (create TOKEN now specs ts)
           = Inr (case ts of None \<Rightarrow> now | Some t \<Rightarrow> t) \<and>
         (\<exists>c. r = Inr c \<and> c < length (containers \<sigma>2) \<and>
              timestamp (containers \<sigma>2 ! c) = (case ts of None \<Rightarrow> now | Some t \<Rightarrow> t))"
proof -
  let ?c = "length (containers \<sigma>)"
  from call_create_new [OF assms(1)]
  have r: "r = Inr ?c" and c: "?c < length (containers \<sigma>1)"
    and t: "timestamp (containers \<sigma>1 ! ?c) = (case ts of None \<Rightarrow> now | Some t \<Rightarrow> t)"
    by (simp_all add: new_ContextContainerImpl_def)
  from steps_keeps [OF assms(2) c] r t show ?thesis
    by (simp add: create_succeeds new_ContextContainerImpl_def)
qed

text \<open>
  One container created with the timestamp 42, read after a call of \<^verbatim>\<open>getSingleton\<close>,
  and one created without a timestamp when the clock shows 1700.
\<close>

theorem timestamp_fixed_witness:
  "let \<sigma>1 = snd (call_create (1/2) 1700 [] (Some 42) initial);
       \<sigma>2 = snd (the (call_getSingleton 7 0 \<sigma>1));
       \<sigma>3 = snd (call_create (1/2) 1700 [] None \<sigma>2)
   in call_create (1/2) 1700 [] (Some 42) initial = (Inr 0, \<sigma>1) \<and>
      steps (1/2) \<sigma>1 \<sigma>2 \<and>
      timestamp (containers \<sigma>2 ! 0) = 42 \<and>
      call_create (1/2) 1700 [] None \<sigma>2 = (Inr 1, \<sigma>3) \<and>
      steps (1/2) \<sigma>3 \<sigma>3 \<and>
      timestamp (containers \<sigma>3 ! 1) = 1700"
proof -
  let ?\<sigma>1 = "snd (call_create (1/2) 1700 [] (Some 42) initial)"
  let ?\<sigma>2 = "snd (the (call_getSingleton 7 0 ?\<sigma>1))"
  let ?\<sigma>3 = "snd (call_create (1/2) 1700 [] None ?\<sigma>2)"
  have a: "call_create (1/2) 1700 [] (Some 42) initial = (Inr 0, ?\<sigma>1)"
    by (simp add: call_create_result initial_def)
  have g: "call_getSingleton 7 0 ?\<sigma>1 = Some (0, ?\<sigma>2)"
    by (simp add: call_create_result initial_def call_getSingleton_def getSingleton_def
        new_ContextContainerImpl_def)
  have s: "steps (1/2) ?\<sigma>1 ?\<sigma>2"
    by (rule step_steps, rule step_getSingleton, rule g)
  have b: "call_create (1/2) 1700 [] None ?\<sigma>2 = (Inr 1, ?\<sigma>3)"
    by (simp add: call_create_result initial_def call_getSingleton_def getSingleton_def
        new_ContextContainerImpl_def)
  from timestamp_fixed [OF a s] timestamp_fixed [OF b steps_refl] a s b show ?thesis
    by (simp add: Let_def steps_refl)
qed

end
